theory Spec2Isabelle
  imports Main
begin

section \<open>Values (the Value Graph)\<close>

text \<open>
  A JavaScript value as the response formatter sees it. Scalars are \<open>null\<close>,
  \<open>undefined\<close>, booleans, numbers and strings. A number is modelled by the integer it
  holds (the model covers the integer-valued numbers); a string is the list of its code
  units, each an 8-bit character, so that \<open>length\<close> is the \<open>.length\<close> of the
  source. Dates, functions and other exotic objects are outside the model.

  A composite is an array (the list of its elements) or a plain object (the list of its
  own enumerable properties in iteration order; the keys of one object are distinct, so
  assigning them in that order to a fresh object appends them). A composite written inline
  (\<open>JArr\<close>, \<open>JObj\<close>) is referenced from this one place only. A composite that may be
  shared, or that lies on a reference cycle, lives in the heap and is referenced by its
  address (\<open>JRef\<close>): the address is its identity. An address outside the heap does not
  arise in a program; it reads as an empty object.
\<close>

datatype jsval =
    JNull
  | JUndefined
  | JBool bool
  | JNum int
  | JStr string
  | JArr "jsval list"
  | JObj "(string \<times> jsval) list"
  | JRef nat

datatype cell = CArr "jsval list" | CObj "(string \<times> jsval) list"

type_synonym heap = "cell list"

definition lookup :: "heap \<Rightarrow> nat \<Rightarrow> cell" where
  "lookup h a = (if a < length h then h ! a else CObj [])"

fun inline :: "cell \<Rightarrow> jsval" where
  "inline (CArr xs) = JArr xs"
| "inline (CObj kvs) = JObj kvs"

text \<open>
  \<open>resolve\<close> is the object a value denotes: code that only looks at the shape of a
  value (\<open>Array.isArray\<close>, \<open>typeof\<close>, \<open>Object.entries\<close>) does not see whether the
  composite is shared.
\<close>

definition resolve :: "heap \<Rightarrow> jsval \<Rightarrow> jsval" where
  "resolve h v = (case v of JRef a \<Rightarrow> inline (lookup h a) | _ \<Rightarrow> v)"

section \<open>Exceptions and text helpers\<close>

text \<open>
  The two exceptions of the layer: a TypeError (a circular structure handed to
  \<open>JSON.stringify\<close>, or \<open>.length\<close> read from \<open>undefined\<close>) and a RangeError (the
  call stack is exhausted). \<open>numberToString\<close> is the decimal text of an integer-valued
  number, \<open>quoteJSONString\<close> the JSON string literal with its escapes.
\<close>

datatype jserror = TypeError | RangeError

definition digit :: "nat \<Rightarrow> char" where
  "digit d = ''0123456789abcdef'' ! d"

function decimal :: "nat \<Rightarrow> string" where
  "decimal n = (if n < 10 then [digit n] else decimal (n div 10) @ [digit (n mod 10)])"
  by pat_completeness auto
termination
  by (relation "measure id") auto

declare decimal.simps [simp del]

definition numberToString :: "int \<Rightarrow> string" where
  "numberToString i = (if i < 0 then CHR ''-'' # decimal (nat (- i)) else decimal (nat i))"

definition quoteChar :: "char \<Rightarrow> string" where
  "quoteChar c =
     (if c = CHR 0x08 then [CHR 0x5C, CHR ''b'']
      else if c = CHR 0x09 then [CHR 0x5C, CHR ''t'']
      else if c = CHR 0x0A then [CHR 0x5C, CHR ''n'']
      else if c = CHR 0x0C then [CHR 0x5C, CHR ''f'']
      else if c = CHR 0x0D then [CHR 0x5C, CHR ''r'']
      else if c = CHR 0x22 then [CHR 0x5C, CHR 0x22]
      else if c = CHR 0x5C then [CHR 0x5C, CHR 0x5C]
      else if (of_char c :: nat) < 32
        then [CHR 0x5C, CHR ''u'', CHR ''0'', CHR ''0'',
              digit ((of_char c :: nat) div 16), digit ((of_char c :: nat) mod 16)]
      else [c])"

definition quoteJSONString :: "string \<Rightarrow> string" where
  "quoteJSONString s = [CHR 0x22] @ concat (map quoteChar s) @ [CHR 0x22]"

fun joinWith :: "string \<Rightarrow> string list \<Rightarrow> string" where
  "joinWith sep [] = []"
| "joinWith sep [p] = p"
| "joinWith sep (p # q # ps) = p @ sep @ joinWith sep (q # ps)"

section \<open>JSON.stringify\<close>

text \<open>
  The text that \<open>JSON.stringify(value, null, gap)\<close> produces, following the language
  definition (SerializeJSONProperty, SerializeJSONArray, SerializeJSONObject):
  \<open>undefined\<close> has no JSON text (the result is \<open>undefined\<close>, here \<open>None\<close>), is
  written \<open>null\<close> inside an array and is left out of an object; an object that is
  already on the stack of objects being serialised raises a TypeError (circular
  structure). With an empty gap the text is compact; with a gap of two spaces every
  nesting level is indented by it.

  Termination: each reference followed puts a new heap address on the stack
  (\<open>unseen\<close> counts the addresses not yet on it), and between two references the inline
  structure gets smaller (\<open>weight\<close>).
\<close>

definition wrapArray :: "string \<Rightarrow> string \<Rightarrow> string list \<Rightarrow> string" where
  "wrapArray gap indent partial =
     (if partial = [] then ''[]''
      else if gap = [] then ''['' @ joinWith '','' partial @ '']''
      else ''['' @ [CHR 0x0A] @ (indent @ gap)
             @ joinWith ('','' @ [CHR 0x0A] @ (indent @ gap)) partial
             @ [CHR 0x0A] @ indent @ '']'')"

definition wrapObject :: "string \<Rightarrow> string \<Rightarrow> string list \<Rightarrow> string" where
  "wrapObject gap indent partial =
     (if partial = [] then ''{}''
      else if gap = [] then ''{'' @ joinWith '','' partial @ ''}''
      else ''{'' @ [CHR 0x0A] @ (indent @ gap)
             @ joinWith ('','' @ [CHR 0x0A] @ (indent @ gap)) partial
             @ [CHR 0x0A] @ indent @ ''}'')"

definition member :: "string \<Rightarrow> string \<Rightarrow> string \<Rightarrow> string" where
  "member gap key str = quoteJSONString key @ (if gap = [] then '':'' else '': '') @ str"

fun weight :: "jsval \<Rightarrow> nat"
  and weights :: "jsval list \<Rightarrow> nat"
  and weightp :: "(string \<times> jsval) list \<Rightarrow> nat" where
  "weight (JArr xs) = Suc (weights xs)"
| "weight (JObj kvs) = Suc (weightp kvs)"
| "weight (JRef a) = 2"
| "weight v = 0"
| "weights [] = 0"
| "weights (x # xs) = Suc (weight x + weights xs)"
| "weightp [] = 0"
| "weightp (kv # kvs) = Suc (weight (snd kv) + weightp kvs)"

definition unseen :: "heap \<Rightarrow> nat set \<Rightarrow> nat" where
  "unseen h S = card ({..<length h} - S)"

lemma unseen_insert: "a < length h \<Longrightarrow> a \<notin> S \<Longrightarrow> unseen h (insert a S) < unseen h S"
  unfolding unseen_def
  by (intro psubset_card_mono) auto

lemma unseen_insert_out: "\<not> a < length h \<Longrightarrow> unseen h (insert a S) = unseen h S"
  unfolding unseen_def by (rule arg_cong [where f = card]) auto

lemma weight_inline_lookup: "\<not> a < length h \<Longrightarrow> weight (inline (lookup h a)) = 1"
  by (simp add: lookup_def)

function serializeJSONProperty ::
    "heap \<Rightarrow> string \<Rightarrow> string \<Rightarrow> nat list \<Rightarrow> jsval \<Rightarrow> jserror + string option"
  and serializeJSONArray ::
    "heap \<Rightarrow> string \<Rightarrow> string \<Rightarrow> nat list \<Rightarrow> jsval list \<Rightarrow> jserror + string list"
  and serializeJSONObject ::
    "heap \<Rightarrow> string \<Rightarrow> string \<Rightarrow> nat list \<Rightarrow> (string \<times> jsval) list \<Rightarrow> jserror + string list"
where
  "serializeJSONProperty h gap indent stack JNull = Inr (Some ''null'')"
| "serializeJSONProperty h gap indent stack JUndefined = Inr None"
| "serializeJSONProperty h gap indent stack (JBool b) = Inr (Some (if b then ''true'' else ''false''))"
| "serializeJSONProperty h gap indent stack (JNum n) = Inr (Some (numberToString n))"
| "serializeJSONProperty h gap indent stack (JStr s) = Inr (Some (quoteJSONString s))"
| "serializeJSONProperty h gap indent stack (JArr xs) =
     (case serializeJSONArray h gap (indent @ gap) stack xs of
        Inl e \<Rightarrow> Inl e
      | Inr partial \<Rightarrow> Inr (Some (wrapArray gap indent partial)))"
| "serializeJSONProperty h gap indent stack (JObj kvs) =
     (case serializeJSONObject h gap (indent @ gap) stack kvs of
        Inl e \<Rightarrow> Inl e
      | Inr partial \<Rightarrow> Inr (Some (wrapObject gap indent partial)))"
| "serializeJSONProperty h gap indent stack (JRef a) =
     (if a \<in> set stack then Inl TypeError
      else serializeJSONProperty h gap indent (a # stack) (inline (lookup h a)))"
| "serializeJSONArray h gap indent stack [] = Inr []"
| "serializeJSONArray h gap indent stack (x # xs) =
     (case serializeJSONProperty h gap indent stack x of
        Inl e \<Rightarrow> Inl e
      | Inr str \<Rightarrow>
         (case serializeJSONArray h gap indent stack xs of
            Inl e \<Rightarrow> Inl e
          | Inr partial \<Rightarrow> Inr ((case str of None \<Rightarrow> ''null'' | Some s \<Rightarrow> s) # partial)))"
| "serializeJSONObject h gap indent stack [] = Inr []"
| "serializeJSONObject h gap indent stack ((k, v) # kvs) =
     (case serializeJSONProperty h gap indent stack v of
        Inl e \<Rightarrow> Inl e
      | Inr str \<Rightarrow>
         (case serializeJSONObject h gap indent stack kvs of
            Inl e \<Rightarrow> Inl e
          | Inr partial \<Rightarrow>
              Inr (case str of None \<Rightarrow> partial | Some s \<Rightarrow> member gap k s # partial)))"
  by pat_completeness auto

termination
  apply (relation "inv_image (less_than <*lex*> less_than)
     (\<lambda>x. case x of
         Inl (h, g, i, st, v) \<Rightarrow> (unseen h (set st), weight v)
       | Inr (Inl (h, g, i, st, xs)) \<Rightarrow> (unseen h (set st), weights xs)
       | Inr (Inr (h, g, i, st, kvs)) \<Rightarrow> (unseen h (set st), weightp kvs))")
             apply (rule wf_inv_image, rule wf_lex_prod, rule wf_less_than, rule wf_less_than)
            apply simp_all
  subgoal for h stack a
    by (cases "a < length h") (simp_all add: unseen_insert unseen_insert_out weight_inline_lookup)
  done

definition JSON_stringify :: "heap \<Rightarrow> jsval \<Rightarrow> jserror + string option" where
  "JSON_stringify h v = serializeJSONProperty h [] [] [] v"

definition JSON_stringify_pretty :: "heap \<Rightarrow> jsval \<Rightarrow> jserror + string option" where
  "JSON_stringify_pretty h v = serializeJSONProperty h ''  '' [] [] v"

section \<open>Size estimator (src/utils/json-serializer.ts)\<close>

text \<open>
  \<open>approximateObjectSize\<close> and its inner \<open>sizeOf\<close>. The set \<open>visited\<close> of the source
  is created once per call and mutated by \<open>sizeOf\<close>; here it is passed in and returned.
  An inline composite is met once only, so adding it to \<open>visited\<close> is not observable and
  is left out; a heap composite is looked up in \<open>visited\<close> by its address.
  The two loops of the source (over the indices of an array, over the own keys of an
  object) are \<open>sizeOfElements\<close> and \<open>sizeOfProperties\<close>.
\<close>

function sizeOf :: "heap \<Rightarrow> nat set \<Rightarrow> jsval \<Rightarrow> nat \<times> nat set"
  and sizeOfElements :: "heap \<Rightarrow> nat set \<Rightarrow> jsval list \<Rightarrow> nat \<times> nat set"
  and sizeOfProperties :: "heap \<Rightarrow> nat set \<Rightarrow> (string \<times> jsval) list \<Rightarrow> nat \<times> nat set"
where
  "sizeOf h visited JNull = (4, visited)"
| "sizeOf h visited (JStr s) = (length s * 2, visited)"
| "sizeOf h visited (JBool b) = (4, visited)"
| "sizeOf h visited (JNum n) = (8, visited)"
| "sizeOf h visited JUndefined = (0, visited)"
| "sizeOf h visited (JRef a) =
     (if a \<in> visited then (0, visited)
      else sizeOf h (insert a visited) (inline (lookup h a)))"
| "sizeOf h visited (JArr xs) =
     (case sizeOfElements h visited xs of (n, visited') \<Rightarrow> (8 + n, visited'))"
| "sizeOf h visited (JObj kvs) =
     (case sizeOfProperties h visited kvs of (n, visited') \<Rightarrow> (8 + n, visited'))"
| "sizeOfElements h visited [] = (0, visited)"
| "sizeOfElements h visited (x # xs) =
     (case sizeOf h visited x of (n, visited') \<Rightarrow>
        (case sizeOfElements h visited' xs of (m, visited'') \<Rightarrow> (n + m, visited'')))"
| "sizeOfProperties h visited [] = (0, visited)"
| "sizeOfProperties h visited ((k, v) # kvs) =
     (case sizeOf h visited v of (n, visited') \<Rightarrow>
        (case sizeOfProperties h visited' kvs of (m, visited'') \<Rightarrow>
           (length k * 2 + n + m, visited'')))"
  by pat_completeness auto

lemma sizeOf_visited_grows:
  "sizeOf_sizeOfElements_sizeOfProperties_dom (Inl (h, vis, v)) \<Longrightarrow> vis \<subseteq> snd (sizeOf h vis v)"
  "sizeOf_sizeOfElements_sizeOfProperties_dom (Inr (Inl (h, vis, xs))) \<Longrightarrow> vis \<subseteq> snd (sizeOfElements h vis xs)"
  "sizeOf_sizeOfElements_sizeOfProperties_dom (Inr (Inr (h, vis, kvs))) \<Longrightarrow> vis \<subseteq> snd (sizeOfProperties h vis kvs)"
proof (induction h vis v and h vis xs and h vis kvs rule: sizeOf_sizeOfElements_sizeOfProperties.pinduct)
  case (6 h visited a)
  then show ?case by (auto simp: sizeOf.psimps)
next
  case (7 h visited xs)
  then show ?case by (auto simp: sizeOf.psimps split: prod.splits)
next
  case (8 h visited kvs)
  then show ?case by (auto simp: sizeOf.psimps split: prod.splits)
next
  case (10 h visited x xs)
  then show ?case by (fastforce simp: sizeOfElements.psimps split: prod.splits)
next
  case (12 h visited k v kvs)
  then show ?case by (fastforce simp: sizeOfProperties.psimps split: prod.splits)
qed (simp_all add: sizeOf.psimps sizeOfElements.psimps sizeOfProperties.psimps)

lemma unseen_mono: "A \<subseteq> B \<Longrightarrow> unseen h B \<le> unseen h A"
  unfolding unseen_def by (intro card_mono) auto

termination sizeOf
  apply (relation "inv_image (less_than <*lex*> less_than)
     (\<lambda>x. case x of
         Inl (h, vis, v) \<Rightarrow> (unseen h vis, weight v)
       | Inr (Inl (h, vis, xs)) \<Rightarrow> (unseen h vis, weights xs)
       | Inr (Inr (h, vis, kvs)) \<Rightarrow> (unseen h vis, weightp kvs))")
         apply (rule wf_inv_image, rule wf_lex_prod, rule wf_less_than, rule wf_less_than)
        apply simp_all
  subgoal for h visited a
    by (cases "a < length h") (simp_all add: unseen_insert unseen_insert_out weight_inline_lookup)
  subgoal for h visited x n visited'
    using sizeOf_visited_grows(1) [of h visited x] unseen_mono [of visited visited' h]
    by (cases "sizeOf h visited x") (auto simp: le_less)
  subgoal for h visited v n visited'
    using sizeOf_visited_grows(1) [of h visited v] unseen_mono [of visited visited' h]
    by (cases "sizeOf h visited v") (auto simp: le_less)
  done

definition approximateObjectSize :: "heap \<Rightarrow> jsval \<Rightarrow> nat" where
  "approximateObjectSize h obj =
     (case obj of
        JNull \<Rightarrow> 4
      | JBool b \<Rightarrow> 4
      | JNum n \<Rightarrow> 8
      | JStr s \<Rightarrow> length s * 2
      | _ \<Rightarrow> fst (sizeOf h {} obj))"

text \<open>
  The reference cost recursion of the specification: the per-type costs of a value,
  not following references (\<open>referenceCost\<close>), the addresses a value refers to
  (\<open>refs\<close>), and the heap composites reachable from a set of addresses
  (\<open>reachable\<close>; \<open>reachAvoid\<close> is reachability along paths that avoid a set).
\<close>

fun referenceCost :: "jsval \<Rightarrow> nat"
  and referenceCosts :: "jsval list \<Rightarrow> nat"
  and referenceCostp :: "(string \<times> jsval) list \<Rightarrow> nat" where
  "referenceCost JNull = 4"
| "referenceCost JUndefined = 0"
| "referenceCost (JBool b) = 4"
| "referenceCost (JNum n) = 8"
| "referenceCost (JStr s) = 2 * length s"
| "referenceCost (JArr xs) = 8 + referenceCosts xs"
| "referenceCost (JObj kvs) = 8 + referenceCostp kvs"
| "referenceCost (JRef a) = 0"
| "referenceCosts [] = 0"
| "referenceCosts (x # xs) = referenceCost x + referenceCosts xs"
| "referenceCostp [] = 0"
| "referenceCostp (kv # kvs) = 2 * length (fst kv) + referenceCost (snd kv) + referenceCostp kvs"

fun refs :: "jsval \<Rightarrow> nat set"
  and refss :: "jsval list \<Rightarrow> nat set"
  and refsp :: "(string \<times> jsval) list \<Rightarrow> nat set" where
  "refs (JRef a) = {a}"
| "refs (JArr xs) = refss xs"
| "refs (JObj kvs) = refsp kvs"
| "refs v = {}"
| "refss [] = {}"
| "refss (x # xs) = refs x \<union> refss xs"
| "refsp [] = {}"
| "refsp (kv # kvs) = refs (snd kv) \<union> refsp kvs"

inductive_set reachAvoid :: "heap \<Rightarrow> nat set \<Rightarrow> nat set \<Rightarrow> nat set"
  for h :: heap and vis :: "nat set" and S :: "nat set" where
  start: "a \<in> S \<Longrightarrow> a \<notin> vis \<Longrightarrow> a \<in> reachAvoid h vis S"
| step: "a \<in> reachAvoid h vis S \<Longrightarrow> b \<in> refs (inline (lookup h a)) \<Longrightarrow> b \<notin> vis
         \<Longrightarrow> b \<in> reachAvoid h vis S"

definition reachable :: "heap \<Rightarrow> nat set \<Rightarrow> nat set" where
  "reachable h S = reachAvoid h {} S"

definition costOver :: "heap \<Rightarrow> nat set \<Rightarrow> nat" where
  "costOver h R = (\<Sum>a\<in>R. referenceCost (inline (lookup h a)))"

section \<open>Serialisation with field filtering (src/utils/json-serializer.ts)\<close>

text \<open>
  \<open>filterObjectFields\<close> rebuilds the value as a fresh tree. \<open>maxDepth\<close> defaults to
  \<open>Infinity\<close> (\<open>None\<close>), so on a cyclic value the recursion never stops by itself: the
  engine stops it with a RangeError when the call stack is exhausted. The first argument
  is that bound, the number of nested calls the stack still has room for.
\<close>

record SerializationOptions =
  includeFields :: "string list option"
  excludeFields :: "string list option"
  maxDepth :: "nat option"

definition selectKeys :: "SerializationOptions \<Rightarrow> (string \<times> jsval) list \<Rightarrow> (string \<times> jsval) list" where
  "selectKeys options kvs =
     (let keys1 = (case includeFields options of
                     Some inc \<Rightarrow> (if length inc > 0 then filter (\<lambda>kv. fst kv \<in> set inc) kvs else kvs)
                   | None \<Rightarrow> kvs);
          keys2 = (case excludeFields options of
                     Some exc \<Rightarrow> (if length exc > 0 then filter (\<lambda>kv. fst kv \<notin> set exc) keys1 else keys1)
                   | None \<Rightarrow> keys1)
      in keys2)"

fun filterObjectFields ::
    "nat \<Rightarrow> heap \<Rightarrow> SerializationOptions \<Rightarrow> nat \<Rightarrow> jsval \<Rightarrow> jserror + jsval"
  and filterElements ::
    "nat \<Rightarrow> heap \<Rightarrow> SerializationOptions \<Rightarrow> nat \<Rightarrow> jsval list \<Rightarrow> jserror + jsval list"
  and filterProperties ::
    "nat \<Rightarrow> heap \<Rightarrow> SerializationOptions \<Rightarrow> nat \<Rightarrow> (string \<times> jsval) list
       \<Rightarrow> jserror + (string \<times> jsval) list"
where
  "filterObjectFields 0 h options currentDepth data = Inl RangeError"
| "filterObjectFields (Suc stack) h options currentDepth data =
     (if (case maxDepth options of None \<Rightarrow> False | Some m \<Rightarrow> currentDepth > m)
      then Inr (JStr ''[Maximum depth exceeded]'')
      else (case resolve h data of
              JArr xs \<Rightarrow>
                (case filterElements stack h options (currentDepth + 1) xs of
                   Inl e \<Rightarrow> Inl e | Inr ys \<Rightarrow> Inr (JArr ys))
            | JObj kvs \<Rightarrow>
                (case filterProperties stack h options (currentDepth + 1) (selectKeys options kvs) of
                   Inl e \<Rightarrow> Inl e | Inr kvs' \<Rightarrow> Inr (JObj kvs'))
            | v \<Rightarrow> Inr v))"
| "filterElements stack h options currentDepth [] = Inr []"
| "filterElements stack h options currentDepth (x # xs) =
     (case filterObjectFields stack h options currentDepth x of
        Inl e \<Rightarrow> Inl e
      | Inr y \<Rightarrow> (case filterElements stack h options currentDepth xs of
                    Inl e \<Rightarrow> Inl e | Inr ys \<Rightarrow> Inr (y # ys)))"
| "filterProperties stack h options currentDepth [] = Inr []"
| "filterProperties stack h options currentDepth ((k, v) # kvs) =
     (case filterObjectFields stack h options currentDepth v of
        Inl e \<Rightarrow> Inl e
      | Inr y \<Rightarrow> (case filterProperties stack h options currentDepth kvs of
                    Inl e \<Rightarrow> Inl e | Inr kvs' \<Rightarrow> Inr ((k, y) # kvs')))"

definition serializeToJson ::
    "nat \<Rightarrow> heap \<Rightarrow> jsval \<Rightarrow> SerializationOptions \<Rightarrow> jserror + string option" where
  "serializeToJson stack h data options =
     (case filterObjectFields stack h options 0 data of
        Inl e \<Rightarrow> Inl e
      | Inr filteredData \<Rightarrow> JSON_stringify_pretty h filteredData)"

text \<open>
  \<open>isObjectTooLarge\<close> of the serializer, and from src/utils/response-formatter.ts the
  options record (an absent field is \<open>None\<close> and takes its default from
  \<open>DEFAULT_LIMITS\<close>) and the admission check: \<open>needsChunking_try\<close> is the body of
  the \<open>try\<close> block, where \<open>jsonString.length\<close> raises a TypeError when the
  serialiser returned \<open>undefined\<close>; \<open>needsChunking\<close> adds the \<open>catch\<close>, which
  returns \<open>true\<close>.
\<close>

definition isObjectTooLarge :: "heap \<Rightarrow> jsval \<Rightarrow> nat \<Rightarrow> bool" where
  "isObjectTooLarge h obj maxSizeBytes = (approximateObjectSize h obj > maxSizeBytes)"

record FormattingOptions =
  maxResponseSize :: "nat option"
  maxArrayItems :: "nat option"
  maxObjectDepth :: "nat option"
  maxChunkSize :: "nat option"

definition MAX_RESPONSE_SIZE :: nat where "MAX_RESPONSE_SIZE = 1000000"
definition MAX_ARRAY_ITEMS :: nat where "MAX_ARRAY_ITEMS = 50"
definition MAX_OBJECT_DEPTH :: nat where "MAX_OBJECT_DEPTH = 5"
definition MAX_CHUNK_SIZE :: nat where "MAX_CHUNK_SIZE = 500000"

definition noSerializationOptions :: SerializationOptions where
  "noSerializationOptions = \<lparr> includeFields = None, excludeFields = None, maxDepth = None \<rparr>"

definition needsChunking_try :: "nat \<Rightarrow> heap \<Rightarrow> jsval \<Rightarrow> nat \<Rightarrow> jserror + bool" where
  "needsChunking_try stack h data maxSize =
     (if isObjectTooLarge h data maxSize then Inr True
      else (case serializeToJson stack h data noSerializationOptions of
              Inl e \<Rightarrow> Inl e
            | Inr None \<Rightarrow> Inl TypeError
            | Inr (Some jsonString) \<Rightarrow> Inr (length jsonString > maxSize)))"

definition needsChunking :: "nat \<Rightarrow> heap \<Rightarrow> FormattingOptions \<Rightarrow> jsval \<Rightarrow> bool" where
  "needsChunking stack h options data =
     (let maxSize = (case maxResponseSize options of Some v \<Rightarrow> v | None \<Rightarrow> MAX_RESPONSE_SIZE)
      in (case needsChunking_try stack h data maxSize of
            Inr b \<Rightarrow> b
          | Inl error \<Rightarrow> True))"

section \<open>Truncation (src/utils/response-formatter.ts)\<close>

text \<open>
  \<open>formatTruncatedResponse\<close> and its inner \<open>formatValue\<close>. The three variables that
  the closure mutates (\<open>wasTruncated\<close>, \<open>itemsOmitted\<close>, \<open>reason\<close>) are the record
  \<open>TruncationState\<close>, passed in and returned; \<open>reason = reason || '...'\<close> is
  \<open>orElse\<close>. The limits are natural numbers.
\<close>

record TruncationState =
  st_wasTruncated :: bool
  st_itemsOmitted :: nat
  st_reason :: "string option"

record TruncationMetadata =
  wasTruncated :: bool
  originalSize :: "nat option"
  itemsOmitted :: "nat option"
  reason :: "string option"

record TruncatedResponse =
  formattedData :: jsval
  metadata :: TruncationMetadata

definition orElse :: "string option \<Rightarrow> string \<Rightarrow> string option" where
  "orElse r s = (case r of Some x \<Rightarrow> Some x | None \<Rightarrow> Some s)"

definition depthExceeded :: "TruncationState \<Rightarrow> TruncationState" where
  "depthExceeded st =
     st \<lparr> st_wasTruncated := True,
          st_reason := orElse (st_reason st) ''Maximum object depth exceeded'' \<rparr>"

definition arrayExceeded :: "nat \<Rightarrow> TruncationState \<Rightarrow> TruncationState" where
  "arrayExceeded omitted st =
     st \<lparr> st_wasTruncated := True,
          st_itemsOmitted := st_itemsOmitted st + omitted,
          st_reason := orElse (st_reason st) ''Array size limit exceeded'' \<rparr>"

definition moreItems :: "nat \<Rightarrow> jsval" where
  "moreItems n = JStr (''... '' @ decimal n @ '' more items'')"

function formatValue ::
    "heap \<Rightarrow> nat \<Rightarrow> nat \<Rightarrow> jsval \<Rightarrow> nat \<Rightarrow> TruncationState \<Rightarrow> jsval \<times> TruncationState"
  and formatItems ::
    "heap \<Rightarrow> nat \<Rightarrow> nat \<Rightarrow> jsval list \<Rightarrow> nat \<Rightarrow> TruncationState
       \<Rightarrow> jsval list \<times> TruncationState"
  and formatEntries ::
    "heap \<Rightarrow> nat \<Rightarrow> nat \<Rightarrow> (string \<times> jsval) list \<Rightarrow> nat \<Rightarrow> TruncationState
       \<Rightarrow> (string \<times> jsval) list \<times> TruncationState"
where
  "formatValue h maxA maxD val depth st =
     (if depth > maxD then (JStr ''[Object depth limit exceeded]'', depthExceeded st)
      else (case resolve h val of
              JNull \<Rightarrow> (JNull, st)
            | JUndefined \<Rightarrow> (JUndefined, st)
            | JArr xs \<Rightarrow>
                (if length xs > maxA
                 then (case formatItems h maxA maxD (take maxA xs) (depth + 1)
                               (arrayExceeded (length xs - maxA) st) of
                         (ys, st') \<Rightarrow> (JArr (ys @ [moreItems (length xs - maxA)]), st'))
                 else (case formatItems h maxA maxD xs (depth + 1) st of
                         (ys, st') \<Rightarrow> (JArr ys, st')))
            | JObj kvs \<Rightarrow>
                (case formatEntries h maxA maxD kvs (depth + 1) st of
                   (kvs', st') \<Rightarrow> (JObj kvs', st'))
            | v \<Rightarrow> (v, st)))"
| "formatItems h maxA maxD [] depth st = ([], st)"
| "formatItems h maxA maxD (x # xs) depth st =
     (case formatValue h maxA maxD x depth st of
        (y, st') \<Rightarrow> (case formatItems h maxA maxD xs depth st' of
                      (ys, st'') \<Rightarrow> (y # ys, st'')))"
| "formatEntries h maxA maxD [] depth st = ([], st)"
| "formatEntries h maxA maxD ((k, v) # kvs) depth st =
     (case formatValue h maxA maxD v depth st of
        (y, st') \<Rightarrow> (case formatEntries h maxA maxD kvs depth st' of
                      (kvs', st'') \<Rightarrow> ((k, y) # kvs', st'')))"
  by pat_completeness auto
termination
  apply (relation "inv_image (less_than <*lex*> less_than)
     (\<lambda>x. case x of
         Inl (h, a, d, v, depth, st) \<Rightarrow> (Suc d - depth, 0)
       | Inr (Inl (h, a, d, xs, depth, st)) \<Rightarrow> (Suc d - depth, Suc (length xs))
       | Inr (Inr (h, a, d, kvs, depth, st)) \<Rightarrow> (Suc d - depth, Suc (length kvs)))")
         apply (rule wf_inv_image, rule wf_lex_prod, rule wf_less_than, rule wf_less_than)
        apply auto
  done

declare formatValue.simps [simp del]

definition formatTruncatedResponse :: "heap \<Rightarrow> FormattingOptions \<Rightarrow> jsval \<Rightarrow> TruncatedResponse" where
  "formatTruncatedResponse h options data =
     (let maxA = (case maxArrayItems options of Some v \<Rightarrow> v | None \<Rightarrow> MAX_ARRAY_ITEMS);
          maxD = (case maxObjectDepth options of Some v \<Rightarrow> v | None \<Rightarrow> MAX_OBJECT_DEPTH);
          r = formatValue h maxA maxD data 0
                \<lparr> st_wasTruncated = False, st_itemsOmitted = 0, st_reason = None \<rparr>;
          st = snd r
      in \<lparr> formattedData = fst r,
           metadata = \<lparr> wasTruncated = st_wasTruncated st,
                        originalSize = None,
                        itemsOmitted = (if st_itemsOmitted st > 0 then Some (st_itemsOmitted st) else None),
                        reason = (if st_wasTruncated st then st_reason st else None) \<rparr> \<rparr>)"

text \<open>The options record \<open>{}\<close>: every limit takes its default.\<close>

definition noOptions :: FormattingOptions where
  "noOptions = \<lparr> maxResponseSize = None, maxArrayItems = None, maxObjectDepth = None, maxChunkSize = None \<rparr>"

section \<open>Chunking and response formatting (src/utils/response-formatter.ts)\<close>

text \<open>
  \<open>chunkResponse\<close>: the two \<open>for\<close> loops are \<open>chunkArrayLoop\<close> and
  \<open>chunkObjectLoop\<close>, with the loop variables \<open>chunks\<close>, \<open>currentChunk\<close> and
  \<open>currentSize\<close> as arguments. \<open>JSON.stringify(item).length\<close> raises a TypeError when
  \<open>JSON.stringify\<close> raises, and also when it returns \<open>undefined\<close>.
  The continuation token is kept as the payload that the source encodes (the base64 text
  of \<open>{type, total}\<close> or \<open>{type, keys}\<close>, never an empty string).

  \<open>formatChunkedResponse\<close> and \<open>createSuccessResponse\<close> contain no \<open>try\<close>: an
  exception raised inside them is their result (\<open>Inl\<close>). The \<open>content\<close> of a result is
  always one text item, kept as \<open>content_text\<close>.
\<close>

datatype token = ArrayToken nat | ObjectToken "string list"

fun chunkArrayLoop ::
    "heap \<Rightarrow> nat \<Rightarrow> jsval list \<Rightarrow> jsval list list \<Rightarrow> jsval list \<Rightarrow> nat
       \<Rightarrow> jserror + (jsval list list \<times> jsval list \<times> nat)" where
  "chunkArrayLoop h maxC [] chunks currentChunk currentSize =
     Inr (chunks, currentChunk, currentSize)"
| "chunkArrayLoop h maxC (item # rest) chunks currentChunk currentSize =
     (case JSON_stringify h item of
        Inl e \<Rightarrow> Inl e
      | Inr None \<Rightarrow> Inl TypeError
      | Inr (Some itemJson) \<Rightarrow>
          (let itemSize = length itemJson
           in if currentSize + itemSize > maxC \<and> length currentChunk > 0
              then chunkArrayLoop h maxC rest (chunks @ [currentChunk]) [item] itemSize
              else chunkArrayLoop h maxC rest chunks (currentChunk @ [item])
                     (currentSize + itemSize)))"

definition chunkArray ::
    "heap \<Rightarrow> nat \<Rightarrow> jsval list \<Rightarrow> jserror + (jsval list \<times> token option)" where
  "chunkArray h maxC xs =
     (case chunkArrayLoop h maxC xs [] [] 0 of
        Inl e \<Rightarrow> Inl e
      | Inr (chunks, currentChunk, currentSize) \<Rightarrow>
          (let chunks' = (if length currentChunk > 0 then chunks @ [currentChunk] else chunks);
               continuationToken =
                 (if length chunks' > 1 then Some (ArrayToken (length xs)) else None)
           in Inr (map JArr chunks', continuationToken)))"

fun chunkObjectLoop ::
    "heap \<Rightarrow> FormattingOptions \<Rightarrow> nat \<Rightarrow> (string \<times> jsval) list \<Rightarrow> jsval list
       \<Rightarrow> (string \<times> jsval) list \<Rightarrow> nat
       \<Rightarrow> jserror + (jsval list \<times> (string \<times> jsval) list \<times> nat)" where
  "chunkObjectLoop h options maxC [] chunks currentChunk currentSize =
     Inr (chunks, currentChunk, currentSize)"
| "chunkObjectLoop h options maxC ((key, val) # rest) chunks currentChunk currentSize =
     (case JSON_stringify h (JObj [(key, val)]) of
        Inl e \<Rightarrow> Inl e
      | Inr None \<Rightarrow> Inl TypeError
      | Inr (Some entryJson) \<Rightarrow>
          (let entrySize = length entryJson
           in if entrySize > maxC
              then (let formatted = formattedData (formatTruncatedResponse h options (JObj [(key, val)]));
                        chunks1 = (if currentSize > 0 \<and> length currentChunk > 0
                                   then chunks @ [JObj currentChunk] else chunks)
                    in chunkObjectLoop h options maxC rest (chunks1 @ [formatted]) [] 0)
              else (if currentSize + entrySize > maxC \<and> length currentChunk > 0
                    then chunkObjectLoop h options maxC rest (chunks @ [JObj currentChunk])
                           [(key, val)] entrySize
                    else chunkObjectLoop h options maxC rest chunks
                           (currentChunk @ [(key, val)]) (currentSize + entrySize))))"

definition chunkObject ::
    "heap \<Rightarrow> FormattingOptions \<Rightarrow> nat \<Rightarrow> (string \<times> jsval) list
       \<Rightarrow> jserror + (jsval list \<times> token option)" where
  "chunkObject h options maxC entries =
     (case chunkObjectLoop h options maxC entries [] [] 0 of
        Inl e \<Rightarrow> Inl e
      | Inr (chunks, currentChunk, currentSize) \<Rightarrow>
          (let chunks' = (if length currentChunk > 0 then chunks @ [JObj currentChunk] else chunks);
               continuationToken =
                 (if length chunks' > 1 then Some (ObjectToken (map fst entries)) else None)
           in Inr (chunks', continuationToken)))"

definition chunkResponse ::
    "heap \<Rightarrow> FormattingOptions \<Rightarrow> jsval \<Rightarrow> jserror + (jsval list \<times> token option)" where
  "chunkResponse h options data =
     (let maxC = (case maxChunkSize options of Some v \<Rightarrow> v | None \<Rightarrow> MAX_CHUNK_SIZE)
      in (case resolve h data of
            JArr xs \<Rightarrow> chunkArray h maxC xs
          | JObj entries \<Rightarrow> chunkObject h options maxC entries
          | v \<Rightarrow> Inr ([data], None)))"

record ChunkedToolCallResult =
  content_text :: string
  isError :: "bool option"
  isChunked :: "bool option"
  chunkIndex :: "nat option"
  totalChunks :: "nat option"
  continuationToken :: "token option"
  truncation :: "TruncationMetadata option"

definition formattedString :: "heap \<Rightarrow> jsval \<Rightarrow> jserror + string" where
  "formattedString h v =
     (case v of
        JUndefined \<Rightarrow> Inr ''undefined''
      | JBool b \<Rightarrow> Inr (if b then ''true'' else ''false'')
      | JNum n \<Rightarrow> Inr (numberToString n)
      | JStr s \<Rightarrow> Inr s
      | _ \<Rightarrow> (case JSON_stringify_pretty h v of
                 Inl e \<Rightarrow> Inl e
               | Inr None \<Rightarrow> Inr ''undefined''
               | Inr (Some s) \<Rightarrow> Inr s))"

definition formatSingle :: "heap \<Rightarrow> FormattingOptions \<Rightarrow> jsval \<Rightarrow> jserror + ChunkedToolCallResult" where
  "formatSingle h options data =
     (let r = formatTruncatedResponse h options data
      in (case formattedString h (formattedData r) of
            Inl e \<Rightarrow> Inl e
          | Inr s \<Rightarrow>
              Inr \<lparr> content_text = s, isError = None, isChunked = None, chunkIndex = None,
                    totalChunks = None, continuationToken = None,
                    truncation = (if wasTruncated (metadata r) then Some (metadata r) else None) \<rparr>))"

definition formatChunk ::
    "heap \<Rightarrow> FormattingOptions \<Rightarrow> nat \<Rightarrow> token option \<Rightarrow> nat \<Rightarrow> jsval
       \<Rightarrow> jserror + ChunkedToolCallResult" where
  "formatChunk h options totalN tok index chunk =
     (let r = formatTruncatedResponse h options chunk
      in (case formattedString h (formattedData r) of
            Inl e \<Rightarrow> Inl e
          | Inr s \<Rightarrow>
              Inr \<lparr> content_text = s, isError = None, isChunked = Some True, chunkIndex = Some index,
                    totalChunks = Some totalN,
                    continuationToken = (if int index = int totalN - 1 then tok else None),
                    truncation = (if wasTruncated (metadata r) then Some (metadata r) else None) \<rparr>))"

fun formatChunks ::
    "heap \<Rightarrow> FormattingOptions \<Rightarrow> nat \<Rightarrow> token option \<Rightarrow> nat \<Rightarrow> jsval list
       \<Rightarrow> jserror + ChunkedToolCallResult list" where
  "formatChunks h options totalN tok index [] = Inr []"
| "formatChunks h options totalN tok index (chunk # rest) =
     (case formatChunk h options totalN tok index chunk of
        Inl e \<Rightarrow> Inl e
      | Inr r \<Rightarrow> (case formatChunks h options totalN tok (index + 1) rest of
                    Inl e \<Rightarrow> Inl e
                  | Inr rs \<Rightarrow> Inr (r # rs)))"

definition formatChunkedResponse ::
    "nat \<Rightarrow> heap \<Rightarrow> FormattingOptions \<Rightarrow> jsval \<Rightarrow> jserror + ChunkedToolCallResult list" where
  "formatChunkedResponse stack h options data =
     (if \<not> needsChunking stack h options data
      then (case formatSingle h options data of Inl e \<Rightarrow> Inl e | Inr r \<Rightarrow> Inr [r])
      else (case chunkResponse h options data of
              Inl e \<Rightarrow> Inl e
            | Inr (chunks, tok) \<Rightarrow> formatChunks h options (length chunks) tok 0 chunks))"

definition createSuccessResponse ::
    "nat \<Rightarrow> heap \<Rightarrow> jsval \<Rightarrow> string option \<Rightarrow> FormattingOptions
       \<Rightarrow> jserror + ChunkedToolCallResult list" where
  "createSuccessResponse stack h data message options =
     (case formatChunkedResponse stack h options data of
        Inl e \<Rightarrow> Inl e
      | Inr results \<Rightarrow>
          (case (message, results) of
             (Some m, firstChunk # others) \<Rightarrow>
               (if m \<noteq> [] then Inr (firstChunk \<lparr> content_text := m @ [CHR 0x0A, CHR 0x0A] @ content_text firstChunk \<rparr> # others)
                else Inr results)
           | _ \<Rightarrow> Inr results))"

definition createErrorResponse :: "string \<Rightarrow> ChunkedToolCallResult" where
  "createErrorResponse errorMessage =
     \<lparr> content_text = errorMessage, isError = Some True, isChunked = None, chunkIndex = None,
       totalChunks = None, continuationToken = None, truncation = None \<rparr>"

section \<open>Pagination (src/utils/pagination.ts)\<close>


record PaginationParams =
  offset :: "int option"
  limit :: "int option"




section \<open>Example inputs\<close>

text \<open>
  \<open>circular\<close> is the heap of the test suite's circular object
  (\<open>obj = {name: 'circular'}; obj.self = obj\<close>), the object being \<open>JRef 0\<close>.
  \<open>tinyLimits\<close> are options that send every composite down the chunking path.
\<close>

definition circular :: heap where
  "circular = [CObj [(''name'', JStr ''circular''), (''self'', JRef 0)]]"

definition tinyLimits :: FormattingOptions where
  "tinyLimits = noOptions \<lparr> maxResponseSize := Some 1, maxChunkSize := Some 1 \<rparr>"

text \<open>
  \<open>nestedArrays\<close> with \<open>nestedLimits\<close> is a value that is split into two chunks, each
  holding one inner array longer than \<open>maxArrayItems\<close>. \<open>truncations\<close> reads the
  truncation metadata off a list of fragments.
\<close>

definition truncations :: "jserror + ChunkedToolCallResult list \<Rightarrow> TruncationMetadata option list" where
  "truncations r = (case r of Inr frags \<Rightarrow> map truncation frags | Inl e \<Rightarrow> [])"

definition nestedArrays :: jsval where
  "nestedArrays = JArr [JArr [JNum 1, JNum 2, JNum 3], JArr [JNum 4, JNum 5, JNum 6, JNum 7]]"

definition nestedLimits :: FormattingOptions where
  "nestedLimits = \<lparr> maxResponseSize = Some 1, maxArrayItems = Some 2, maxObjectDepth = None,
                     maxChunkSize = Some 7 \<rparr>"

text \<open>
  \<open>pairLimit\<close> keeps two items of every array.
\<close>

definition pairLimit :: FormattingOptions where
  "pairLimit = noOptions \<lparr> maxArrayItems := Some 2 \<rparr>"

section \<open>Values that truncation leaves alone\<close>

text \<open>
  A value is \<open>settled\<close> at a depth when \<open>formatValue\<close> returns it unchanged there,
  with the state untouched, whatever the heap and the state.
\<close>

definition settled :: "nat \<Rightarrow> nat \<Rightarrow> nat \<Rightarrow> jsval \<Rightarrow> bool" where
  "settled maxA maxD depth v = (\<forall>h st. formatValue h maxA maxD v depth st = (v, st))"

definition settledItems :: "nat \<Rightarrow> nat \<Rightarrow> nat \<Rightarrow> jsval list \<Rightarrow> bool" where
  "settledItems maxA maxD depth xs = (\<forall>h st. formatItems h maxA maxD xs depth st = (xs, st))"

definition settledEntries :: "nat \<Rightarrow> nat \<Rightarrow> nat \<Rightarrow> (string \<times> jsval) list \<Rightarrow> bool" where
  "settledEntries maxA maxD depth kvs = (\<forall>h st. formatEntries h maxA maxD kvs depth st = (kvs, st))"

section \<open>Reading chunks back\<close>

text \<open>
  The elements of an array chunk and the pairs of an object chunk; the length of the
  compact JSON text of a value (the \<open>itemSize\<close> and \<open>entrySize\<close> of the source, 0 where
  there is no text); the chunk budget in force; what \<open>chunkResponse\<close> emits for one pair
  of an object (the pair itself, or its truncated form when the pair alone exceeds the
  budget); and the budget a chunk is held to: it is not empty, and it holds a single
  element or pair, or the sizes of its elements (of its pairs, each measured as a
  one-pair object) add up to at most the budget.
\<close>

definition elementsOf :: "jsval \<Rightarrow> jsval list" where
  "elementsOf v = (case v of JArr xs \<Rightarrow> xs | _ \<Rightarrow> [])"

definition entriesOf :: "jsval \<Rightarrow> (string \<times> jsval) list" where
  "entriesOf v = (case v of JObj kvs \<Rightarrow> kvs | _ \<Rightarrow> [])"









section \<open>The size estimate and the reference cost\<close>

lemma finite_refs: "finite (refs v)" "finite (refss xs)" "finite (refsp kvs)"
  by (induction v and xs and kvs rule: refs_refss_refsp.induct) simp_all

lemma reachAvoid_avoids: "a \<in> reachAvoid h vis S \<Longrightarrow> a \<notin> vis"
  by (induction rule: reachAvoid.induct) simp_all

lemma reachAvoid_subset:
  "reachAvoid h vis S \<subseteq> S \<union> (\<Union>a\<in>{..<length h}. refs (inline (h ! a)))"
proof
  fix x assume "x \<in> reachAvoid h vis S"
  then show "x \<in> S \<union> (\<Union>a\<in>{..<length h}. refs (inline (h ! a)))"
  proof (induction rule: reachAvoid.induct)
    case (start a)
    then show ?case by simp
  next
    case (step a b)
    then show ?case by (cases "a < length h") (auto simp: lookup_def)
  qed
qed

lemma finite_reachAvoid: "finite S \<Longrightarrow> finite (reachAvoid h vis S)"
  by (rule finite_subset [OF reachAvoid_subset]) (simp add: finite_refs)

lemma reachAvoid_empty [simp]: "reachAvoid h vis {} = {}"
proof -
  have "x \<in> reachAvoid h vis {} \<Longrightarrow> False" for x
    by (induction rule: reachAvoid.induct) simp_all
  then show ?thesis by auto
qed

lemma reachAvoid_seen: "a \<in> vis \<Longrightarrow> reachAvoid h vis {a} = {}"
proof -
  assume a: "a \<in> vis"
  have "x \<in> reachAvoid h vis {a} \<Longrightarrow> False" for x
    by (induction rule: reachAvoid.induct) (use a in simp_all)
  then show ?thesis by auto
qed

lemma reachAvoid_mono:
  "x \<in> reachAvoid h vis S \<Longrightarrow> S \<subseteq> T \<Longrightarrow> x \<in> reachAvoid h vis T"
  by (induction rule: reachAvoid.induct) (auto intro: reachAvoid.intros)

lemma reachAvoid_antimono:
  "x \<in> reachAvoid h vis' S \<Longrightarrow> vis \<subseteq> vis' \<Longrightarrow> x \<in> reachAvoid h vis S"
  by (induction rule: reachAvoid.induct) (auto intro: reachAvoid.intros)

lemma reachAvoid_union:
  "reachAvoid h vis (A \<union> B) =
     reachAvoid h vis A \<union> reachAvoid h (vis \<union> reachAvoid h vis A) B"
  (is "?L = ?R1 \<union> ?R2")
proof (intro equalityI subsetI)
  fix x assume "x \<in> ?L"
  then show "x \<in> ?R1 \<union> ?R2"
  proof (induction rule: reachAvoid.induct)
    case (start a)
    then show ?case by (auto intro: reachAvoid.start)
  next
    case (step a b)
    show ?case
    proof (cases "b \<in> ?R1")
      case True then show ?thesis by simp
    next
      case False
      from step.IH show ?thesis
      proof
        assume "a \<in> ?R1"
        with step.hyps have "b \<in> ?R1" by (auto intro: reachAvoid.step)
        with False show ?thesis by simp
      next
        assume "a \<in> ?R2"
        with step.hyps False have "b \<in> ?R2" by (auto intro: reachAvoid.step)
        then show ?thesis by simp
      qed
    qed
  qed
next
  fix x assume "x \<in> ?R1 \<union> ?R2"
  then show "x \<in> ?L"
    by (auto intro: reachAvoid_mono reachAvoid_antimono)
qed

lemma reachAvoid_unfold:
  assumes "a \<notin> vis"
  shows "reachAvoid h vis {a} =
           insert a (reachAvoid h (insert a vis) (refs (inline (lookup h a))))"
  (is "?L = insert a ?R")
proof (intro equalityI subsetI)
  fix x assume "x \<in> ?L"
  then show "x \<in> insert a ?R"
  proof (induction rule: reachAvoid.induct)
    case (start b)
    then show ?case by simp
  next
    case (step b c)
    show ?case
    proof (cases "c = a")
      case True then show ?thesis by simp
    next
      case False
      from step.IH show ?thesis
      proof
        assume "b = a"
        with step.hyps False have "c \<in> ?R" by (auto intro: reachAvoid.start)
        then show ?thesis by simp
      next
        assume "b \<in> ?R"
        with step.hyps False have "c \<in> ?R" by (auto intro: reachAvoid.step)
        then show ?thesis by simp
      qed
    qed
  qed
next
  fix x assume x: "x \<in> insert a ?R"
  have a: "a \<in> ?L" using assms by (auto intro: reachAvoid.start)
  have "y \<in> ?R \<Longrightarrow> y \<in> ?L" for y
  proof (induction rule: reachAvoid.induct)
    case (start b)
    then show ?case using a by (auto intro: reachAvoid.step)
  next
    case (step b c)
    then show ?case by (auto intro: reachAvoid.step)
  qed
  with x a show "x \<in> ?L" by auto
qed

lemma costOver_insert:
  "finite R \<Longrightarrow> a \<notin> R \<Longrightarrow>
   costOver h (insert a R) = referenceCost (inline (lookup h a)) + costOver h R"
  by (simp add: costOver_def)

lemma costOver_union:
  "finite A \<Longrightarrow> finite B \<Longrightarrow> A \<inter> B = {} \<Longrightarrow> costOver h (A \<union> B) = costOver h A + costOver h B"
  by (simp add: costOver_def sum.union_disjoint)

lemma costOver_empty [simp]: "costOver h {} = 0"
  by (simp add: costOver_def)

lemma reachAvoid_split_disjoint:
  "reachAvoid h vis A \<inter> reachAvoid h (vis \<union> reachAvoid h vis A) B = {}"
  using reachAvoid_avoids [of _ h "vis \<union> reachAvoid h vis A" B] by auto

lemma sizeOf_reference:
  "sizeOf h vis v =
     (referenceCost v + costOver h (reachAvoid h vis (refs v)), vis \<union> reachAvoid h vis (refs v))"
  "sizeOfElements h vis xs =
     (referenceCosts xs + costOver h (reachAvoid h vis (refss xs)), vis \<union> reachAvoid h vis (refss xs))"
  "sizeOfProperties h vis kvs =
     (referenceCostp kvs + costOver h (reachAvoid h vis (refsp kvs)), vis \<union> reachAvoid h vis (refsp kvs))"
proof (induction h vis v and h vis xs and h vis kvs rule: sizeOf_sizeOfElements_sizeOfProperties.induct)
  case (6 h visited a)
  show ?case
  proof (cases "a \<in> visited")
    case True
    then show ?thesis by (simp add: reachAvoid_seen)
  next
    case False
    let ?c = "inline (lookup h a)"
    let ?R = "reachAvoid h (insert a visited) (refs ?c)"
    have fin: "finite ?R" by (rule finite_reachAvoid) (rule finite_refs)
    have notin: "a \<notin> ?R" using reachAvoid_avoids [of a h "insert a visited" "refs ?c"] by auto
    have unf: "reachAvoid h visited {a} = insert a ?R" by (rule reachAvoid_unfold [OF False])
    show ?thesis
      using False 6 [OF False] by (simp add: unf costOver_insert [OF fin notin])
  qed
next
  case (10 h visited x xs)
  let ?R1 = "reachAvoid h visited (refs x)"
  let ?R2 = "reachAvoid h (visited \<union> ?R1) (refss xs)"
  have f1: "finite ?R1" and f2: "finite ?R2" by (rule finite_reachAvoid, rule finite_refs)+
  have ih2: "sizeOfElements h (visited \<union> ?R1) xs =
      (referenceCosts xs + costOver h ?R2, (visited \<union> ?R1) \<union> ?R2)"
    using 10(2) [OF 10(1) [symmetric]] .
  show ?case
    by (simp add: 10(1) ih2 reachAvoid_union [of h visited "refs x" "refss xs"]
          costOver_union [OF f1 f2 reachAvoid_split_disjoint] Un_assoc)
next
  case (12 h visited k v kvs)
  let ?R1 = "reachAvoid h visited (refs v)"
  let ?R2 = "reachAvoid h (visited \<union> ?R1) (refsp kvs)"
  have f1: "finite ?R1" and f2: "finite ?R2" by (rule finite_reachAvoid, rule finite_refs)+
  have ih2: "sizeOfProperties h (visited \<union> ?R1) kvs =
      (referenceCostp kvs + costOver h ?R2, (visited \<union> ?R1) \<union> ?R2)"
    using 12(2) [OF 12(1) [symmetric]] .
  show ?case
    by (simp add: 12(1) ih2 reachAvoid_union [of h visited "refs v" "refsp kvs"]
          costOver_union [OF f1 f2 reachAvoid_split_disjoint] Un_assoc)
qed simp_all

text \<open>
  Claim C7. For every value (cyclic or not) the size estimate is the reference cost
  recursion: \<open>null\<close> and booleans cost 4, numbers 8, strings twice their length,
  composites 8 plus the costs of their children, each key of an object twice its length
  in addition. Every composite reachable from the value is charged once: a composite
  already visited in the same call contributes 0. The estimate is a total function.
\<close>

theorem approximateObjectSize_reference:
  "approximateObjectSize h v = referenceCost v + costOver h (reachable h (refs v))
   \<and> sizeOf h (insert a vis) (JRef a) = (0, insert a vis)"
proof
  show "approximateObjectSize h v = referenceCost v + costOver h (reachable h (refs v))"
    by (cases v) (simp_all add: approximateObjectSize_def sizeOf_reference reachable_def)
  show "sizeOf h (insert a vis) (JRef a) = (0, insert a vis)"
    by simp
qed

theorem approximateObjectSize_reference_witness:
  "approximateObjectSize [CObj [(''id'', JNum 1), (''self'', JRef 0)]] (JRef 0)
     = referenceCost (JRef 0)
       + costOver [CObj [(''id'', JNum 1), (''self'', JRef 0)]]
           (reachable [CObj [(''id'', JNum 1), (''self'', JRef 0)]] (refs (JRef 0)))
   \<and> approximateObjectSize [CObj [(''id'', JNum 1), (''self'', JRef 0)]] (JRef 0) = 28"
  using approximateObjectSize_reference [of "[CObj [(''id'', JNum 1), (''self'', JRef 0)]]" "JRef 0"]
  by (simp add: approximateObjectSize_def lookup_def)

section \<open>Pagination window\<close>






section \<open>The admission check\<close>

lemma filterObjectFields_circular:
  "filterObjectFields stack circular noSerializationOptions d (JRef 0) = Inl RangeError"
proof (induction stack arbitrary: d)
  case 0
  show ?case by simp
next
  case (Suc s)
  show ?case
  proof (cases s)
    case 0
    then show ?thesis
      by (simp add: noSerializationOptions_def resolve_def lookup_def circular_def selectKeys_def)
  next
    case (Suc s')
    have "filterObjectFields s circular noSerializationOptions (d + 1) (JRef 0) = Inl RangeError"
      by (rule Suc.IH)
    then show ?thesis using Suc
      by (simp add: noSerializationOptions_def resolve_def lookup_def circular_def selectKeys_def)
  qed
qed

lemma serializeToJson_circular:
  "serializeToJson stack circular (JRef 0) noSerializationOptions = Inl RangeError"
  by (simp add: serializeToJson_def filterObjectFields_circular)

text \<open>
  Claim C8. The size estimate is a total function; the confirming serialisation raises
  (a RangeError on a cyclic value, whatever the stack bound) or has no text to measure
  (\<open>undefined\<close>, whose \<open>.length\<close> raises a TypeError). On every such input
  \<open>needsChunking\<close> returns \<open>true\<close>; being a Boolean function, it raises nothing.
\<close>

theorem needsChunking_conservative:
  assumes "serializeToJson stack h data noSerializationOptions = Inl e
           \<or> serializeToJson stack h data noSerializationOptions = Inr None"
  shows "needsChunking stack h options data = True"
  using assms
  by (auto simp: needsChunking_def needsChunking_try_def Let_def)

theorem needsChunking_conservative_witness:
  "serializeToJson 10000 circular (JRef 0) noSerializationOptions = Inl RangeError
   \<and> needsChunking 10000 circular noOptions (JRef 0) = True"
  using needsChunking_conservative [of 10000 circular "JRef 0" RangeError noOptions]
        serializeToJson_circular [of 10000]
  by simp

section \<open>Positions and tokens of a chunked result\<close>

lemma formatChunks_shape:
  "formatChunks h options totalN tok index chunks = Inr frags \<Longrightarrow>
     length frags = length chunks \<and>
     (\<forall>i < length chunks.
        isChunked (frags ! i) = Some True \<and>
        chunkIndex (frags ! i) = Some (index + i) \<and>
        totalChunks (frags ! i) = Some totalN \<and>
        continuationToken (frags ! i) = (if int (index + i) = int totalN - 1 then tok else None))"
proof (induction chunks arbitrary: index frags)
  case Nil
  then show ?case by simp
next
  case (Cons c cs)
  from Cons.prems obtain r rs where
    r: "formatChunk h options totalN tok index c = Inr r"
    and rs: "formatChunks h options totalN tok (index + 1) cs = Inr rs"
    and fr: "frags = r # rs"
    by (auto split: sum.splits)
  have hd: "isChunked r = Some True \<and> chunkIndex r = Some index \<and> totalChunks r = Some totalN
      \<and> continuationToken r = (if int index = int totalN - 1 then tok else None)"
    using r by (auto simp: formatChunk_def Let_def split: sum.splits)
  from Cons.IH [OF rs] have tl: "length rs = length cs"
    and tl2: "\<forall>i < length cs.
        isChunked (rs ! i) = Some True \<and>
        chunkIndex (rs ! i) = Some (index + 1 + i) \<and>
        totalChunks (rs ! i) = Some totalN \<and>
        continuationToken (rs ! i) = (if int (index + 1 + i) = int totalN - 1 then tok else None)"
    by simp_all
  show ?case
  proof (intro conjI allI impI)
    show "length frags = length (c # cs)" using fr tl by simp
  next
    fix i assume "i < length (c # cs)"
    then show "isChunked (frags ! i) = Some True" using fr hd tl2 by (cases i) simp_all
  next
    fix i assume "i < length (c # cs)"
    then show "chunkIndex (frags ! i) = Some (index + i)" using fr hd tl2 by (cases i) simp_all
  next
    fix i assume "i < length (c # cs)"
    then show "totalChunks (frags ! i) = Some totalN" using fr hd tl2 by (cases i) simp_all
  next
    fix i assume "i < length (c # cs)"
    then show "continuationToken (frags ! i) = (if int (index + i) = int totalN - 1 then tok else None)"
      using fr hd tl2 by (cases i) simp_all
  qed
qed

lemma last_index: "i < n \<Longrightarrow> (int i = int n - 1) = (i = n - 1)"
  by auto

lemma chunkArray_token:
  "chunkArray h maxC xs = Inr (chunks, tok) \<Longrightarrow> (tok \<noteq> None) = (1 < length chunks)"
  by (auto simp: chunkArray_def Let_def split: sum.splits prod.splits if_splits)

lemma chunkObject_token:
  "chunkObject h options maxC kvs = Inr (chunks, tok) \<Longrightarrow> (tok \<noteq> None) = (1 < length chunks)"
  by (auto simp: chunkObject_def Let_def split: sum.splits prod.splits if_splits)

lemma chunkResponse_token:
  "chunkResponse h options data = Inr (chunks, tok) \<Longrightarrow> (tok \<noteq> None) = (1 < length chunks)"
  unfolding chunkResponse_def Let_def
  by (cases "resolve h data") (auto dest: chunkArray_token chunkObject_token)

text \<open>
  Claim C9. In a chunked result a continuation token exists if and only if chunking
  gave more than one chunk, and only the last fragment carries it; every fragment has
  \<open>isChunked = true\<close>, its 0-based \<open>chunkIndex\<close> and \<open>totalChunks\<close> equal to the
  number of fragments.
\<close>

theorem chunked_result_positions:
  assumes "needsChunking stack h options data"
    and "formatChunkedResponse stack h options data = Inr frags"
  shows "\<exists>chunks tok.
           chunkResponse h options data = Inr (chunks, tok)
           \<and> length frags = length chunks
           \<and> ((tok \<noteq> None) = (1 < length chunks))
           \<and> (\<forall>i < length frags.
                 isChunked (frags ! i) = Some True
                 \<and> chunkIndex (frags ! i) = Some i
                 \<and> totalChunks (frags ! i) = Some (length frags)
                 \<and> continuationToken (frags ! i)
                     = (if i = length frags - 1 then tok else None))"
proof -
  from assms obtain chunks tok where
    c: "chunkResponse h options data = Inr (chunks, tok)"
    and f: "formatChunks h options (length chunks) tok 0 chunks = Inr frags"
    by (auto simp: formatChunkedResponse_def split: sum.splits)
  from formatChunks_shape [OF f] have len: "length frags = length chunks"
    and sh: "\<forall>i < length chunks.
        isChunked (frags ! i) = Some True \<and>
        chunkIndex (frags ! i) = Some (0 + i) \<and>
        totalChunks (frags ! i) = Some (length chunks) \<and>
        continuationToken (frags ! i) = (if int (0 + i) = int (length chunks) - 1 then tok else None)"
    by simp_all
  show ?thesis
    using c len sh chunkResponse_token [OF c]
    by (intro exI [of _ chunks] exI [of _ tok]) (simp add: last_index)
qed

theorem chunked_result_positions_witness:
  "needsChunking 10000 [] tinyLimits (JArr [JNum 1, JNum 2])
   \<and> formatChunkedResponse 10000 [] tinyLimits (JArr [JNum 1, JNum 2]) =
       Inr [\<lparr> content_text = [CHR ''['', CHR 0x0A, CHR '' '', CHR '' '', CHR ''1'', CHR 0x0A, CHR '']''],
              isError = None, isChunked = Some True, chunkIndex = Some 0, totalChunks = Some 2,
              continuationToken = None, truncation = None \<rparr>,
            \<lparr> content_text = [CHR ''['', CHR 0x0A, CHR '' '', CHR '' '', CHR ''2'', CHR 0x0A, CHR '']''],
              isError = None, isChunked = Some True, chunkIndex = Some 1, totalChunks = Some 2,
              continuationToken = Some (ArrayToken 2), truncation = None \<rparr>]
   \<and> (\<exists>chunks tok.
         chunkResponse [] tinyLimits (JArr [JNum 1, JNum 2]) = Inr (chunks, tok)
         \<and> length chunks = 2 \<and> tok \<noteq> None)"
proof -
  have h1: "needsChunking 10000 [] tinyLimits (JArr [JNum 1, JNum 2])"
    by code_simp
  have h2: "formatChunkedResponse 10000 [] tinyLimits (JArr [JNum 1, JNum 2]) =
       Inr [\<lparr> content_text = [CHR ''['', CHR 0x0A, CHR '' '', CHR '' '', CHR ''1'', CHR 0x0A, CHR '']''],
              isError = None, isChunked = Some True, chunkIndex = Some 0, totalChunks = Some 2,
              continuationToken = None, truncation = None \<rparr>,
            \<lparr> content_text = [CHR ''['', CHR 0x0A, CHR '' '', CHR '' '', CHR ''2'', CHR 0x0A, CHR '']''],
              isError = None, isChunked = Some True, chunkIndex = Some 1, totalChunks = Some 2,
              continuationToken = Some (ArrayToken 2), truncation = None \<rparr>]"
    by code_simp
  from chunked_result_positions [OF h1 h2] obtain chunks tok where
    "chunkResponse [] tinyLimits (JArr [JNum 1, JNum 2]) = Inr (chunks, tok)"
    "2 = length chunks" "(tok \<noteq> None) = (1 < length chunks)"
    by auto
  then have "\<exists>chunks tok.
         chunkResponse [] tinyLimits (JArr [JNum 1, JNum 2]) = Inr (chunks, tok)
         \<and> length chunks = 2 \<and> tok \<noteq> None"
    by auto
  with h1 h2 show ?thesis by (intro conjI)
qed

lemma chunkResponse_empty:
  "resolve h data = JArr [] \<or> resolve h data = JObj [] \<Longrightarrow>
     chunkResponse h options data = Inr ([], None)"
  by (auto simp: chunkResponse_def chunkArray_def chunkObject_def Let_def)

text \<open>
  Claim C10. Chunking an empty array or an empty object gives no chunk and no token, so
  when the chunking path is taken for such a value the formatter returns the empty list
  of fragments.
\<close>

theorem empty_composite_no_fragments:
  assumes "resolve h data = JArr [] \<or> resolve h data = JObj []"
  shows "chunkResponse h options data = Inr ([], None)
         \<and> (needsChunking stack h options data \<longrightarrow>
              formatChunkedResponse stack h options data = Inr [])"
  using chunkResponse_empty [OF assms]
  by (simp add: formatChunkedResponse_def)

theorem empty_composite_no_fragments_witness:
  "resolve [] (JArr []) = JArr []
   \<and> needsChunking 10000 [] tinyLimits (JArr [])
   \<and> chunkResponse [] tinyLimits (JArr []) = Inr ([], None)
   \<and> formatChunkedResponse 10000 [] tinyLimits (JArr []) = Inr []"
proof -
  have r: "resolve [] (JArr []) = JArr []" by (simp add: resolve_def)
  have n: "needsChunking 10000 [] tinyLimits (JArr [])" by code_simp
  from empty_composite_no_fragments [of "[]" "JArr []" tinyLimits 10000] r n
  show ?thesis by simp
qed

section \<open>Formatted output never holds a reference\<close>

lemma resolve_not_ref [simp]: "resolve h v \<noteq> JRef a"
  by (cases v; cases "lookup h (case v of JRef b \<Rightarrow> b | _ \<Rightarrow> 0)") (auto simp: resolve_def)

lemma refss_append [simp]: "refss (xs @ ys) = refss xs \<union> refss ys"
  by (induction xs) auto

lemma refs_moreItems [simp]: "refs (moreItems n) = {}"
  by (simp add: moreItems_def)

lemma formatValue_refs:
  "refs (fst (formatValue h maxA maxD v depth st)) = {}"
  "refss (fst (formatItems h maxA maxD xs depth st)) = {}"
  "refsp (fst (formatEntries h maxA maxD kvs depth st)) = {}"
proof (induction h maxA maxD v depth st and h maxA maxD xs depth st and h maxA maxD kvs depth st
       rule: formatValue_formatItems_formatEntries.induct)
  case (1 h maxA maxD val depth st)
  show ?case
  proof (cases "depth > maxD")
    case True
    then show ?thesis by (simp add: formatValue.simps [of h maxA maxD val depth st])
  next
    case False
    show ?thesis
    proof (cases "resolve h val")
      case (JArr xs)
      show ?thesis
      proof (cases "length xs > maxA")
        case True
        from 1(1) [OF False JArr True] show ?thesis using False JArr True
          by (simp add: formatValue.simps [of h maxA maxD val depth st] case_prod_beta)
      next
        case F2: False
        from 1(2) [OF False JArr F2] show ?thesis using False JArr F2
          by (simp add: formatValue.simps [of h maxA maxD val depth st] case_prod_beta)
      qed
    next
      case (JObj kvs)
      from 1(3) [OF False JObj] show ?thesis using False JObj
        by (simp add: formatValue.simps [of h maxA maxD val depth st] case_prod_beta)
    qed (use False in \<open>simp_all add: formatValue.simps [of h maxA maxD val depth st]\<close>)
  qed
next
  case (3 h maxA maxD x xs depth st)
  from 3(1) 3(2) [OF prod.collapse] show ?case
    by (simp add: case_prod_beta)
next
  case (5 h maxA maxD k v kvs depth st)
  from 5(1) 5(2) [OF prod.collapse] show ?case
    by (simp add: case_prod_beta)
qed simp_all

lemma serialize_refFree:
  "refs v = {} \<Longrightarrow> \<exists>r. serializeJSONProperty h gap ind stk v = Inr r"
  "refss xs = {} \<Longrightarrow> \<exists>r. serializeJSONArray h gap ind stk xs = Inr r"
  "refsp kvs = {} \<Longrightarrow> \<exists>r. serializeJSONObject h gap ind stk kvs = Inr r"
proof (induction h gap ind stk v and h gap ind stk xs and h gap ind stk kvs
       rule: serializeJSONProperty_serializeJSONArray_serializeJSONObject.induct)
  case (6 h gap indent stack xs)
  then show ?case by (auto split: sum.splits)
next
  case (7 h gap indent stack kvs)
  then show ?case by (auto split: sum.splits)
next
  case (10 h gap indent stack x xs)
  then show ?case by (auto split: sum.splits)
next
  case (12 h gap indent stack k v kvs)
  then show ?case by (auto split: sum.splits)
qed simp_all

lemma formattedString_refFree: "refs v = {} \<Longrightarrow> \<exists>s. formattedString h v = Inr s"
  using serialize_refFree(1) [of v h "''  ''" "[]" "[]"]
  by (cases v) (auto simp: formattedString_def JSON_stringify_pretty_def split: sum.splits option.splits)

lemma formattedString_truncated:
  "\<exists>s. formattedString h (formattedData (formatTruncatedResponse h' options v)) = Inr s"
  by (rule formattedString_refFree) (simp add: formatTruncatedResponse_def Let_def formatValue_refs)

lemma formatSingle_returns: "\<exists>r. formatSingle h options data = Inr r"
  using formattedString_truncated [of h h options data]
  by (auto simp: formatSingle_def Let_def)

lemma formatChunk_returns: "\<exists>r. formatChunk h options totalN tok index chunk = Inr r"
  using formattedString_truncated [of h h options chunk]
  by (auto simp: formatChunk_def Let_def)

lemma formatChunks_returns: "\<exists>rs. formatChunks h options totalN tok index chunks = Inr rs"
proof (induction chunks arbitrary: index)
  case Nil
  show ?case by simp
next
  case (Cons c cs)
  from formatChunk_returns [of h options totalN tok index c] Cons [of "index + 1"]
  show ?case by auto
qed

section \<open>Exceptions of the formatter\<close>

lemma needsChunking_circular: "needsChunking stack circular options (JRef 0)"
  by (simp add: needsChunking_def needsChunking_try_def serializeToJson_circular Let_def)

lemma resolve_circular:
  "resolve circular (JRef 0) = JObj [(''name'', JStr ''circular''), (''self'', JRef 0)]"
  by (simp add: resolve_def lookup_def circular_def)

lemma stringify_circular_name:
  "JSON_stringify circular (JObj [(''name'', JStr ''circular'')])
     = Inr (Some ([CHR ''{'', CHR 0x22] @ ''name'' @ [CHR 0x22, CHR '':'', CHR 0x22] @ ''circular''
                  @ [CHR 0x22, CHR ''}'']))"
  by code_simp

lemma stringify_circular_self:
  "JSON_stringify circular (JObj [(''self'', JRef 0)]) = Inl TypeError"
  by code_simp

lemma chunkResponse_circular: "chunkResponse circular noOptions (JRef 0) = Inl TypeError"
  by (simp add: chunkResponse_def chunkObject_def resolve_circular noOptions_def
        MAX_CHUNK_SIZE_def stringify_circular_name stringify_circular_self)

text \<open>
  Counterexample to claim C6 as stated: on the circular object of the test suite, with
  the default options, the admission check absorbs the RangeError of the confirming
  serialisation, and then \<open>JSON.stringify\<close> inside \<open>chunkResponse\<close> raises a TypeError
  that leaves \<open>formatChunkedResponse\<close> and \<open>createSuccessResponse\<close>: no error fragment
  is returned.
\<close>

theorem formatChunkedResponse_raises_counterexample:
  "formatChunkedResponse 10000 circular noOptions (JRef 0) = Inl TypeError
   \<and> createSuccessResponse 10000 circular (JRef 0) None noOptions = Inl TypeError"
  by (simp add: formatChunkedResponse_def createSuccessResponse_def
        needsChunking_circular chunkResponse_circular)

lemma formatChunks_isError:
  "formatChunks h options totalN tok index chunks = Inr frags \<Longrightarrow> \<forall>f \<in> set frags. isError f = None"
proof (induction chunks arbitrary: index frags)
  case Nil
  then show ?case by simp
next
  case (Cons c cs)
  from Cons.prems obtain r rs where
    r: "formatChunk h options totalN tok index c = Inr r"
    and rs: "formatChunks h options totalN tok (index + 1) cs = Inr rs"
    and fr: "frags = r # rs"
    by (auto split: sum.splits)
  have "isError r = None" using r by (auto simp: formatChunk_def Let_def split: sum.splits)
  with Cons.IH [OF rs] fr show ?case by simp
qed

lemma formatChunkedResponse_Inl:
  "(formatChunkedResponse stack h options data = Inl e)
     = (needsChunking stack h options data \<and> chunkResponse h options data = Inl e)"
proof (cases "needsChunking stack h options data")
  case False
  then show ?thesis using formatSingle_returns [of h options data]
    by (auto simp: formatChunkedResponse_def)
next
  case True
  show ?thesis
  proof (cases "chunkResponse h options data")
    case (Inl e')
    then show ?thesis using True by (simp add: formatChunkedResponse_def)
  next
    case (Inr p)
    obtain chunks tok where p: "p = (chunks, tok)" by (cases p)
    from formatChunks_returns [of h options "length chunks" tok 0 chunks]
    show ?thesis using True Inr p by (auto simp: formatChunkedResponse_def)
  qed
qed

lemma formatChunkedResponse_isError:
  assumes "formatChunkedResponse stack h options data = Inr frags"
  shows "\<forall>f \<in> set frags. isError f = None"
proof (cases "needsChunking stack h options data")
  case False
  with assms show ?thesis
    by (auto simp: formatChunkedResponse_def formatSingle_def Let_def split: sum.splits)
next
  case True
  with assms obtain chunks tok where
    "formatChunks h options (length chunks) tok 0 chunks = Inr frags"
    by (auto simp: formatChunkedResponse_def split: sum.splits)
  then show ?thesis by (rule formatChunks_isError)
qed

lemma createSuccessResponse_Inl:
  "(createSuccessResponse stack h data message options = Inl e)
     = (formatChunkedResponse stack h options data = Inl e)"
  by (auto simp: createSuccessResponse_def split: sum.splits option.splits list.splits)

text \<open>
  Claim C6, amended. A serialisation failure inside the admission check is absorbed
  there. A failure while chunking is not caught: \<open>formatChunkedResponse\<close> and
  \<open>createSuccessResponse\<close> raise exactly when the chunking path is taken and
  \<open>chunkResponse\<close> raises, with the same exception; the text production of a
  fragment itself never raises, and no fragment they return is marked as an error.
\<close>

theorem formatChunkedResponse_raises_iff:
  "((formatChunkedResponse stack h options data = Inl e)
      = (needsChunking stack h options data \<and> chunkResponse h options data = Inl e))
   \<and> ((createSuccessResponse stack h data message options = Inl e)
      = (needsChunking stack h options data \<and> chunkResponse h options data = Inl e))
   \<and> (\<forall>frags. formatChunkedResponse stack h options data = Inr frags
          \<longrightarrow> (\<forall>f \<in> set frags. isError f = None))"
  using formatChunkedResponse_Inl [of stack h options data e]
        createSuccessResponse_Inl [of stack h data message options e]
        formatChunkedResponse_isError [of stack h options data]
  by blast

theorem formatChunkedResponse_raises_iff_witness:
  "needsChunking 10000 circular noOptions (JRef 0)
   \<and> chunkResponse circular noOptions (JRef 0) = Inl TypeError
   \<and> formatChunkedResponse 10000 circular noOptions (JRef 0) = Inl TypeError
   \<and> formatChunkedResponse 10000 [] tinyLimits (JArr [JNum 1]) =
       Inr [\<lparr> content_text = [CHR ''['', CHR 0x0A, CHR '' '', CHR '' '', CHR ''1'', CHR 0x0A, CHR '']''],
              isError = None, isChunked = Some True, chunkIndex = Some 0, totalChunks = Some 1,
              continuationToken = None, truncation = None \<rparr>]"
proof -
  have a: "needsChunking 10000 circular noOptions (JRef 0)" by (rule needsChunking_circular)
  have b: "chunkResponse circular noOptions (JRef 0) = Inl TypeError" by (rule chunkResponse_circular)
  have c: "formatChunkedResponse 10000 [] tinyLimits (JArr [JNum 1]) =
       Inr [\<lparr> content_text = [CHR ''['', CHR 0x0A, CHR '' '', CHR '' '', CHR ''1'', CHR 0x0A, CHR '']''],
              isError = None, isChunked = Some True, chunkIndex = Some 0, totalChunks = Some 1,
              continuationToken = None, truncation = None \<rparr>]"
    by code_simp
  from formatChunkedResponse_raises_iff [of 10000 circular noOptions "JRef 0" TypeError None] a b
  have "formatChunkedResponse 10000 circular noOptions (JRef 0) = Inl TypeError" by blast
  with a b c show ?thesis by (intro conjI)
qed

lemma formatChunk_fields:
  "formatChunk h options totalN tok index chunk = Inr r \<Longrightarrow>
     formattedString h (formattedData (formatTruncatedResponse h options chunk)) = Inr (content_text r)
     \<and> truncation r = (if wasTruncated (metadata (formatTruncatedResponse h options chunk))
                       then Some (metadata (formatTruncatedResponse h options chunk)) else None)"
  by (auto simp: formatChunk_def Let_def split: sum.splits)

lemma formatChunks_nth:
  "formatChunks h options totalN tok index chunks = Inr frags \<Longrightarrow>
     length frags = length chunks \<and>
     (\<forall>i < length chunks.
        formatChunk h options totalN tok (index + i) (chunks ! i) = Inr (frags ! i))"
proof (induction chunks arbitrary: index frags)
  case Nil
  then show ?case by simp
next
  case (Cons c cs)
  from Cons.prems obtain r rs where
    r: "formatChunk h options totalN tok index c = Inr r"
    and rs: "formatChunks h options totalN tok (index + 1) cs = Inr rs"
    and fr: "frags = r # rs"
    by (auto split: sum.splits)
  from Cons.IH [OF rs] have tl: "length rs = length cs"
    and tl2: "\<forall>i < length cs. formatChunk h options totalN tok (index + 1 + i) (cs ! i) = Inr (rs ! i)"
    by simp_all
  show ?case
  proof (intro conjI allI impI)
    show "length frags = length (c # cs)" using fr tl by simp
  next
    fix i assume "i < length (c # cs)"
    then show "formatChunk h options totalN tok (index + i) ((c # cs) ! i) = Inr (frags ! i)"
      using fr r tl2 by (cases i) simp_all
  qed
qed

text \<open>
  Claim C1, amended. When chunking is required the value is chunked first, untruncated,
  and every chunk is then truncated on its own: the text of fragment \<open>i\<close> is the
  truncated chunk \<open>i\<close>, and its truncation metadata is that of the pass over chunk
  \<open>i\<close> alone (absent when that pass truncated nothing).
\<close>

theorem chunk_then_truncate:
  assumes "needsChunking stack h options data"
    and "chunkResponse h options data = Inr (chunks, tok)"
  shows "\<exists>frags.
           formatChunkedResponse stack h options data = Inr frags
           \<and> length frags = length chunks
           \<and> (\<forall>i < length chunks.
                 formattedString h (formattedData (formatTruncatedResponse h options (chunks ! i)))
                   = Inr (content_text (frags ! i))
                 \<and> truncation (frags ! i)
                   = (if wasTruncated (metadata (formatTruncatedResponse h options (chunks ! i)))
                      then Some (metadata (formatTruncatedResponse h options (chunks ! i)))
                      else None))"
proof -
  from formatChunks_returns [of h options "length chunks" tok 0 chunks] obtain frags where
    f: "formatChunks h options (length chunks) tok 0 chunks = Inr frags" by blast
  from formatChunks_nth [OF f] have len: "length frags = length chunks"
    and nth: "\<forall>i < length chunks.
        formatChunk h options (length chunks) tok (0 + i) (chunks ! i) = Inr (frags ! i)"
    by simp_all
  have "formatChunkedResponse stack h options data = Inr frags"
    using assms f by (simp add: formatChunkedResponse_def)
  moreover have "\<forall>i < length chunks.
                 formattedString h (formattedData (formatTruncatedResponse h options (chunks ! i)))
                   = Inr (content_text (frags ! i))
                 \<and> truncation (frags ! i)
                   = (if wasTruncated (metadata (formatTruncatedResponse h options (chunks ! i)))
                      then Some (metadata (formatTruncatedResponse h options (chunks ! i)))
                      else None)"
  proof (intro allI impI)
    fix i assume "i < length chunks"
    with nth have "formatChunk h options (length chunks) tok i (chunks ! i) = Inr (frags ! i)"
      by simp
    then show "formattedString h (formattedData (formatTruncatedResponse h options (chunks ! i)))
                   = Inr (content_text (frags ! i))
                 \<and> truncation (frags ! i)
                   = (if wasTruncated (metadata (formatTruncatedResponse h options (chunks ! i)))
                      then Some (metadata (formatTruncatedResponse h options (chunks ! i)))
                      else None)"
      by (rule formatChunk_fields)
  qed
  ultimately show ?thesis using len by blast
qed

theorem chunk_then_truncate_witness:
  "needsChunking 10000 [] nestedLimits nestedArrays
   \<and> chunkResponse [] nestedLimits nestedArrays
       = Inr ([JArr [JArr [JNum 1, JNum 2, JNum 3]], JArr [JArr [JNum 4, JNum 5, JNum 6, JNum 7]]],
              Some (ArrayToken 2))
   \<and> (\<exists>frags. formatChunkedResponse 10000 [] nestedLimits nestedArrays = Inr frags
         \<and> length frags = 2)"
proof -
  have a: "needsChunking 10000 [] nestedLimits nestedArrays" by code_simp
  have b: "chunkResponse [] nestedLimits nestedArrays
       = Inr ([JArr [JArr [JNum 1, JNum 2, JNum 3]], JArr [JArr [JNum 4, JNum 5, JNum 6, JNum 7]]],
              Some (ArrayToken 2))" by code_simp
  from chunk_then_truncate [OF a b] have
    "\<exists>frags. formatChunkedResponse 10000 [] nestedLimits nestedArrays = Inr frags
         \<and> length frags = 2" by auto
  with a b show ?thesis by (intro conjI)
qed

text \<open>
  Counterexample to claim C1 as stated: the two fragments carry different truncation
  records (1 and 2 items omitted), and neither is the record of a single pass over the
  whole value (3 items omitted).
\<close>

theorem single_pass_counterexample:
  "needsChunking 10000 [] nestedLimits nestedArrays
   \<and> chunkResponse [] nestedLimits nestedArrays
       = Inr ([JArr [JArr [JNum 1, JNum 2, JNum 3]], JArr [JArr [JNum 4, JNum 5, JNum 6, JNum 7]]],
              Some (ArrayToken 2))
   \<and> truncations (formatChunkedResponse 10000 [] nestedLimits nestedArrays)
       = [Some \<lparr> wasTruncated = True, originalSize = None, itemsOmitted = Some 1,
                 reason = Some ''Array size limit exceeded'' \<rparr>,
          Some \<lparr> wasTruncated = True, originalSize = None, itemsOmitted = Some 2,
                 reason = Some ''Array size limit exceeded'' \<rparr>]
   \<and> metadata (formatTruncatedResponse [] nestedLimits nestedArrays)
       = \<lparr> wasTruncated = True, originalSize = None, itemsOmitted = Some 3,
           reason = Some ''Array size limit exceeded'' \<rparr>"
  by code_simp

section \<open>Truncating twice\<close>

lemma depthExceeded_was [simp]: "st_wasTruncated (depthExceeded st)"
  by (simp add: depthExceeded_def)

lemma arrayExceeded_was [simp]: "st_wasTruncated (arrayExceeded n st)"
  by (simp add: arrayExceeded_def)

lemma formatValue_was_mono:
  "st_wasTruncated st \<Longrightarrow> st_wasTruncated (snd (formatValue h maxA maxD v depth st))"
  "st_wasTruncated st \<Longrightarrow> st_wasTruncated (snd (formatItems h maxA maxD xs depth st))"
  "st_wasTruncated st \<Longrightarrow> st_wasTruncated (snd (formatEntries h maxA maxD kvs depth st))"
proof (induction h maxA maxD v depth st and h maxA maxD xs depth st and h maxA maxD kvs depth st
       rule: formatValue_formatItems_formatEntries.induct)
  case (1 h maxA maxD val depth st)
  show ?case
  proof (cases "depth > maxD")
    case True
    then show ?thesis by (simp add: formatValue.simps [of h maxA maxD val depth st])
  next
    case False
    show ?thesis
    proof (cases "resolve h val")
      case (JArr xs)
      show ?thesis
      proof (cases "length xs > maxA")
        case True
        from 1(1) [OF False JArr True] show ?thesis using False JArr True
          by (simp add: formatValue.simps [of h maxA maxD val depth st] case_prod_beta)
      next
        case F2: False
        from 1(2) [OF False JArr F2] 1(4) show ?thesis using False JArr F2
          by (simp add: formatValue.simps [of h maxA maxD val depth st] case_prod_beta)
      qed
    next
      case (JObj kvs)
      from 1(3) [OF False JObj] 1(4) show ?thesis using False JObj
        by (simp add: formatValue.simps [of h maxA maxD val depth st] case_prod_beta)
    qed (use False 1(4) in \<open>simp_all add: formatValue.simps [of h maxA maxD val depth st]\<close>)
  qed
next
  case (3 h maxA maxD x xs depth st)
  from 3(1) 3(2) [OF prod.collapse] 3(3) show ?case
    by (simp add: case_prod_beta)
next
  case (5 h maxA maxD k v kvs depth st)
  from 5(1) 5(2) [OF prod.collapse] 5(3) show ?case
    by (simp add: case_prod_beta)
qed simp_all

lemma formatItems_length: "length (fst (formatItems h maxA maxD xs depth st)) = length xs"
  by (induction xs arbitrary: st) (simp_all add: case_prod_beta)

lemma settled_scalar:
  "\<not> depth > maxD \<Longrightarrow> v \<in> {JNull, JUndefined} \<or> (\<exists>b. v = JBool b) \<or> (\<exists>n. v = JNum n) \<or> (\<exists>s. v = JStr s)
     \<Longrightarrow> settled maxA maxD depth v"
  unfolding settled_def
  by (auto simp: formatValue.simps [of _ maxA maxD v depth] resolve_def)

lemma settled_array:
  "\<not> depth > maxD \<Longrightarrow> \<not> length ys > maxA \<Longrightarrow> settledItems maxA maxD (depth + 1) ys
     \<Longrightarrow> settled maxA maxD depth (JArr ys)"
  unfolding settled_def settledItems_def
  by (simp add: formatValue.simps [of _ maxA maxD "JArr ys" depth] resolve_def)

lemma settled_object:
  "\<not> depth > maxD \<Longrightarrow> settledEntries maxA maxD (depth + 1) kvs
     \<Longrightarrow> settled maxA maxD depth (JObj kvs)"
  unfolding settled_def settledEntries_def
  by (simp add: formatValue.simps [of _ maxA maxD "JObj kvs" depth] resolve_def)

lemma formatValue_untruncated:
  "\<not> st_wasTruncated (snd (formatValue h maxA maxD v depth st)) \<Longrightarrow>
     snd (formatValue h maxA maxD v depth st) = st
     \<and> settled maxA maxD depth (fst (formatValue h maxA maxD v depth st))"
  "\<not> st_wasTruncated (snd (formatItems h maxA maxD xs depth st)) \<Longrightarrow>
     snd (formatItems h maxA maxD xs depth st) = st
     \<and> settledItems maxA maxD depth (fst (formatItems h maxA maxD xs depth st))"
  "\<not> st_wasTruncated (snd (formatEntries h maxA maxD kvs depth st)) \<Longrightarrow>
     snd (formatEntries h maxA maxD kvs depth st) = st
     \<and> settledEntries maxA maxD depth (fst (formatEntries h maxA maxD kvs depth st))"
proof (induction h maxA maxD v depth st and h maxA maxD xs depth st and h maxA maxD kvs depth st
       rule: formatValue_formatItems_formatEntries.induct)
  case (1 h maxA maxD val depth st)
  note unf = formatValue.simps [of h maxA maxD val depth st]
  show ?case
  proof (cases "depth > maxD")
    case True
    with 1(4) show ?thesis by (simp add: unf)
  next
    case False
    show ?thesis
    proof (cases "resolve h val")
      case (JArr xs)
      show ?thesis
      proof (cases "length xs > maxA")
        case True
        have "st_wasTruncated (snd (formatItems h maxA maxD (take maxA xs) (depth + 1)
                 (arrayExceeded (length xs - maxA) st)))"
          by (rule formatValue_was_mono) simp
        with 1(4) show ?thesis using False JArr True
          by (simp add: unf case_prod_beta)
      next
        case F2: False
        have eq: "formatValue h maxA maxD val depth st
            = (JArr (fst (formatItems h maxA maxD xs (depth + 1) st)),
               snd (formatItems h maxA maxD xs (depth + 1) st))"
          using False JArr F2 by (simp add: unf case_prod_beta)
        from 1(4) have nt: "\<not> st_wasTruncated (snd (formatItems h maxA maxD xs (depth + 1) st))"
          by (simp add: eq)
        from 1(2) [OF False JArr F2 nt]
        have a: "snd (formatItems h maxA maxD xs (depth + 1) st) = st"
          and b: "settledItems maxA maxD (depth + 1) (fst (formatItems h maxA maxD xs (depth + 1) st))"
          by simp_all
        have "settled maxA maxD depth (JArr (fst (formatItems h maxA maxD xs (depth + 1) st)))"
          using False F2 b by (intro settled_array) (simp_all add: formatItems_length)
        with a show ?thesis by (simp add: eq)
      qed
    next
      case (JObj kvs)
      have eq: "formatValue h maxA maxD val depth st
          = (JObj (fst (formatEntries h maxA maxD kvs (depth + 1) st)),
             snd (formatEntries h maxA maxD kvs (depth + 1) st))"
        using False JObj by (simp add: unf case_prod_beta)
      from 1(4) have nt: "\<not> st_wasTruncated (snd (formatEntries h maxA maxD kvs (depth + 1) st))"
        by (simp add: eq)
      from 1(3) [OF False JObj nt]
      have a: "snd (formatEntries h maxA maxD kvs (depth + 1) st) = st"
        and b: "settledEntries maxA maxD (depth + 1) (fst (formatEntries h maxA maxD kvs (depth + 1) st))"
        by simp_all
      have "settled maxA maxD depth (JObj (fst (formatEntries h maxA maxD kvs (depth + 1) st)))"
        using False b by (intro settled_object) simp_all
      with a show ?thesis by (simp add: eq)
    next
      case JNull
      then show ?thesis using False by (simp add: unf settled_scalar)
    next
      case JUndefined
      then show ?thesis using False by (simp add: unf settled_scalar)
    next
      case (JBool b)
      then show ?thesis using False by (simp add: unf settled_scalar)
    next
      case (JNum n)
      then show ?thesis using False by (simp add: unf settled_scalar)
    next
      case (JStr s)
      then show ?thesis using False by (simp add: unf settled_scalar)
    next
      case (JRef a)
      then show ?thesis by simp
    qed
  qed
next
  case (2 h maxA maxD depth st)
  show ?case by (simp add: settledItems_def)
next
  case (3 h maxA maxD x xs depth st)
  let ?r1 = "formatValue h maxA maxD x depth st"
  let ?r2 = "formatItems h maxA maxD xs depth (snd ?r1)"
  have eq: "formatItems h maxA maxD (x # xs) depth st = (fst ?r1 # fst ?r2, snd ?r2)"
    by (simp add: case_prod_beta)
  from 3(3) have nt2: "\<not> st_wasTruncated (snd ?r2)" by (simp add: case_prod_beta)
  then have nt1: "\<not> st_wasTruncated (snd ?r1)"
    using formatValue_was_mono(2) [of "snd ?r1" h maxA maxD xs depth] by blast
  from 3(1) [OF nt1] have a1: "snd ?r1 = st" and b1: "settled maxA maxD depth (fst ?r1)"
    by simp_all
  from 3(2) [OF prod.collapse nt2] have a2: "snd ?r2 = snd ?r1"
    and b2: "settledItems maxA maxD depth (fst ?r2)" by simp_all
  have "settledItems maxA maxD depth (fst ?r1 # fst ?r2)"
    using b1 b2 by (simp add: settled_def settledItems_def)
  with a1 a2 show ?case by (simp add: case_prod_beta)
next
  case (4 h maxA maxD depth st)
  show ?case by (simp add: settledEntries_def)
next
  case (5 h maxA maxD k v kvs depth st)
  let ?r1 = "formatValue h maxA maxD v depth st"
  let ?r2 = "formatEntries h maxA maxD kvs depth (snd ?r1)"
  have eq: "formatEntries h maxA maxD ((k, v) # kvs) depth st = ((k, fst ?r1) # fst ?r2, snd ?r2)"
    by (simp add: case_prod_beta)
  from 5(3) have nt2: "\<not> st_wasTruncated (snd ?r2)" by (simp add: case_prod_beta)
  then have nt1: "\<not> st_wasTruncated (snd ?r1)"
    using formatValue_was_mono(3) [of "snd ?r1" h maxA maxD kvs depth] by blast
  from 5(1) [OF nt1] have a1: "snd ?r1 = st" and b1: "settled maxA maxD depth (fst ?r1)"
    by simp_all
  from 5(2) [OF prod.collapse nt2] have a2: "snd ?r2 = snd ?r1"
    and b2: "settledEntries maxA maxD depth (fst ?r2)" by simp_all
  have "settledEntries maxA maxD depth ((k, fst ?r1) # fst ?r2)"
    using b1 b2 by (simp add: settled_def settledEntries_def)
  with a1 a2 show ?case by (simp add: case_prod_beta)
qed

text \<open>
  Claim C2, amended. Truncation is idempotent on the passes that truncate nothing: for
  every value and limits, if the pass reports \<open>wasTruncated = false\<close>, then truncating
  its result again with the same limits returns the same value and again reports
  \<open>wasTruncated = false\<close>.
\<close>

theorem truncate_again_when_untruncated:
  assumes "\<not> wasTruncated (metadata (formatTruncatedResponse h options v))"
  shows "formatTruncatedResponse h options (formattedData (formatTruncatedResponse h options v))
           = formatTruncatedResponse h options v
         \<and> \<not> wasTruncated (metadata (formatTruncatedResponse h options
                (formattedData (formatTruncatedResponse h options v))))"
proof -
  define maxA where "maxA = (case maxArrayItems options of Some v \<Rightarrow> v | None \<Rightarrow> MAX_ARRAY_ITEMS)"
  define maxD where "maxD = (case maxObjectDepth options of Some v \<Rightarrow> v | None \<Rightarrow> MAX_OBJECT_DEPTH)"
  define st0 where "st0 = \<lparr> st_wasTruncated = False, st_itemsOmitted = 0, st_reason = None \<rparr>"
  define r where "r = formatValue h maxA maxD v 0 st0"
  have nt: "\<not> st_wasTruncated (snd r)"
    using assms by (simp add: formatTruncatedResponse_def Let_def r_def maxA_def maxD_def st0_def)
  from formatValue_untruncated(1) [of h maxA maxD v 0 st0] nt
  have a: "snd r = st0" and b: "settled maxA maxD 0 (fst r)" by (simp_all add: r_def)
  from b have again: "formatValue h maxA maxD (fst r) 0 st0 = (fst r, st0)"
    by (simp add: settled_def)
  have fd: "formattedData (formatTruncatedResponse h options v) = fst r"
    by (simp add: formatTruncatedResponse_def Let_def r_def maxA_def maxD_def st0_def)
  have "formatTruncatedResponse h options (fst r) = formatTruncatedResponse h options v"
    using again a
    by (simp add: formatTruncatedResponse_def Let_def r_def [symmetric] maxA_def [symmetric]
          maxD_def [symmetric] st0_def [symmetric])
  with assms show ?thesis by (simp add: fd)
qed

theorem truncate_again_when_untruncated_witness:
  "\<not> wasTruncated (metadata (formatTruncatedResponse [] pairLimit (JArr [JNum 1, JArr [JNum 2]])))
   \<and> formatTruncatedResponse [] pairLimit
         (formattedData (formatTruncatedResponse [] pairLimit (JArr [JNum 1, JArr [JNum 2]])))
       = formatTruncatedResponse [] pairLimit (JArr [JNum 1, JArr [JNum 2]])"
proof -
  have a: "\<not> wasTruncated (metadata (formatTruncatedResponse [] pairLimit (JArr [JNum 1, JArr [JNum 2]])))"
    by code_simp
  from truncate_again_when_untruncated [OF a] a show ?thesis by (intro conjI) simp_all
qed

text \<open>
  Counterexample to claim C2 as stated: with \<open>maxArrayItems = 2\<close> the array
  \<open>[1, 2, 3, 4]\<close> becomes \<open>[1, 2, "... 2 more items"]\<close>, which has three elements;
  the second pass truncates it again, to \<open>[1, 2, "... 1 more items"]\<close>, and reports
  \<open>wasTruncated = true\<close>.
\<close>

theorem truncate_twice_counterexample:
  "formatTruncatedResponse [] pairLimit (JArr [JNum 1, JNum 2, JNum 3, JNum 4])
     = \<lparr> formattedData = JArr [JNum 1, JNum 2, JStr ''... 2 more items''],
         metadata = \<lparr> wasTruncated = True, originalSize = None, itemsOmitted = Some 2,
                      reason = Some ''Array size limit exceeded'' \<rparr> \<rparr>
   \<and> formatTruncatedResponse [] pairLimit (JArr [JNum 1, JNum 2, JStr ''... 2 more items''])
     = \<lparr> formattedData = JArr [JNum 1, JNum 2, JStr ''... 1 more items''],
         metadata = \<lparr> wasTruncated = True, originalSize = None, itemsOmitted = Some 1,
                      reason = Some ''Array size limit exceeded'' \<rparr> \<rparr>"
  by code_simp

section \<open>Round trip of the chunker\<close>


lemma elementsOf_JArr [simp]: "elementsOf (JArr xs) = xs"
  by (simp add: elementsOf_def)

lemma entriesOf_JObj [simp]: "entriesOf (JObj kvs) = kvs"
  by (simp add: entriesOf_def)

lemma concat_elementsOf [simp]: "concat (map (elementsOf \<circ> JArr) cs) = concat cs"
  by (induction cs) simp_all












section \<open>Chunk budget\<close>








end
